theory Spec2Isabelle
  imports Complex_Main "HOL-Library.Char_ord" "HOL-Library.List_Lexorder"
begin

section \<open>Data model\<close>

text \<open>
  Python text is modelled by its UTF-8 bytes: a \<open>str\<close> is the \<open>string\<close> of the bytes that
  encode it, so that equal texts are equal strings, the empty text is the empty string, and
  a letter outside ASCII is the two or three bytes of its encoding.

  A raw record is the dictionary a format parser (rispy, bibtexparser) returns for one
  citation: field name to text (both parsers give the title, the abstract and the year as
  text). \<open>record.get('title', None)\<close> is the lookup \<open>record ''title''\<close>.
\<close>

type_synonym raw_record = "string \<rightharpoonup> string"

text \<open>
  A row of the data frame of valid records. The source's column names are
  \<open>Titulo\<close> (written with an accent there), \<open>Resumen\<close> and \<open>Fecha\<close>; the similarity stage
  adds the column \<open>Similitud\<close>.
\<close>

record row =
  Titulo :: string
  Resumen :: string
  Fecha :: int

record scored_row = row +
  Similitud :: real

datatype error = ValueError | UnicodeDecodeError | IndexError

section \<open>Python's \<open>int\<close> on text\<close>

text \<open>
  \<open>int(year)\<close> on a \<open>str\<close>: surrounding whitespace is stripped, one sign is allowed, then
  decimal digits, where single underscores may stand between digits. Anything else raises
  \<open>ValueError\<close>, here \<open>None\<close>. The blanks and digits are those of ASCII; the blanks and
  decimal digits of other scripts, which \<open>int\<close> accepts as well, and the interpreter's
  limit on the number of digits are left out.
\<close>

definition is_space :: "char \<Rightarrow> bool" where
  "is_space c = (c \<in> set [CHR '' '', CHR 0x09, CHR 0x0A, CHR 0x0B, CHR 0x0C, CHR 0x0D])"

definition is_digit :: "char \<Rightarrow> bool" where
  "is_digit c = (c \<in> set ''0123456789'')"

definition digit_val :: "char \<Rightarrow> int" where
  "digit_val c = int (of_char c) - 48"

definition py_strip :: "string \<Rightarrow> string" where
  "py_strip s = rev (dropWhile is_space (rev (dropWhile is_space s)))"

fun parse_digits :: "int \<Rightarrow> string \<Rightarrow> int option" where
  "parse_digits acc [] = Some acc"
| "parse_digits acc [c] = (if is_digit c then Some (acc * 10 + digit_val c) else None)"
| "parse_digits acc (c # d # cs) =
     (if is_digit c then parse_digits (acc * 10 + digit_val c) (d # cs)
      else if c = CHR ''_'' \<and> is_digit d then parse_digits acc (d # cs)
      else None)"

definition parse_unsigned :: "string \<Rightarrow> int option" where
  "parse_unsigned ds =
     (case ds of [] \<Rightarrow> None
      | d # _ \<Rightarrow> if is_digit d then parse_digits 0 ds else None)"

definition py_int :: "string \<Rightarrow> int option" where
  "py_int s =
     (case py_strip s of [] \<Rightarrow> None
      | c # cs \<Rightarrow>
          if c = CHR ''-'' then map_option uminus (parse_unsigned cs)
          else if c = CHR ''+'' then parse_unsigned cs
          else parse_unsigned (c # cs))"

section \<open>Record Normalizer\<close>

text \<open>Python truthiness of \<open>record.get(key, None)\<close>: absent and empty text are false.\<close>

definition truthy :: "string option \<Rightarrow> bool" where
  "truthy v = (case v of None \<Rightarrow> False | Some s \<Rightarrow> s \<noteq> [])"

text \<open>
  \<open>filter_records\<close>: the loop over the parsed records with its two local lists. The call
  \<open>int(year)\<close> is not guarded, so its \<open>ValueError\<close> leaves the function and both lists are lost.
\<close>

fun filter_records_loop ::
  "raw_record list \<Rightarrow> row list \<Rightarrow> raw_record list \<Rightarrow> error + (row list \<times> raw_record list)" where
  "filter_records_loop [] valid_records invalid_records = Inr (valid_records, invalid_records)"
| "filter_records_loop (record # records) valid_records invalid_records =
     (let title = record ''title''; abstract = record ''abstract''; year = record ''year'' in
      if truthy title \<and> truthy abstract \<and> truthy year then
        (case py_int (the year) of
           None \<Rightarrow> Inl ValueError
         | Some y \<Rightarrow>
             filter_records_loop records
               (valid_records @ [\<lparr>Titulo = the title, Resumen = the abstract, Fecha = y\<rparr>])
               invalid_records)
      else filter_records_loop records valid_records (invalid_records @ [record]))"

definition filter_records :: "raw_record list \<Rightarrow> error + (row list \<times> raw_record list)" where
  "filter_records records = filter_records_loop records [] []"

section \<open>Reading the uploaded files\<close>

text \<open>
  An uploaded file: its name and the outcome of \<open>file.read().decode('utf-8')\<close>, which is
  \<open>None\<close> when the bytes are not UTF-8 (the \<open>UnicodeDecodeError\<close> is raised outside the
  \<open>try\<close> block and is not caught). The format parsers \<open>rispy.loads\<close> and
  \<open>bibtexparser.loads\<close> are parameters: text to the parsed records, \<open>None\<close> when the
  parser raises.
\<close>

record uploaded_file =
  file_name :: string
  file_text :: "string option"

type_synonym loader = "string \<Rightarrow> raw_record list option"

text \<open>
  \<open>parse_ris\<close>: every exception of \<open>rispy.loads\<close> and of \<open>filter_records\<close> is caught by the
  \<open>except\<close> of the file loop (an error message is shown), and the loop goes on with the
  next file, the two lists unchanged.
\<close>

fun parse_ris_loop ::
  "loader \<Rightarrow> uploaded_file list \<Rightarrow> row list \<Rightarrow> raw_record list
     \<Rightarrow> error + (row list \<times> raw_record list)" where
  "parse_ris_loop loads [] valid_records invalid_records = Inr (valid_records, invalid_records)"
| "parse_ris_loop loads (file # files) valid_records invalid_records =
     (case file_text file of
        None \<Rightarrow> Inl UnicodeDecodeError
      | Some ris_data \<Rightarrow>
          (case loads ris_data of
             None \<Rightarrow> parse_ris_loop loads files valid_records invalid_records
           | Some parsed_records \<Rightarrow>
               (case filter_records parsed_records of
                  Inl e \<Rightarrow> parse_ris_loop loads files valid_records invalid_records
                | Inr (valid, invalid) \<Rightarrow>
                    parse_ris_loop loads files (valid_records @ valid) (invalid_records @ invalid))))"

definition parse_ris :: "loader \<Rightarrow> uploaded_file list \<Rightarrow> error + (row list \<times> nat)" where
  "parse_ris loads files =
     (case parse_ris_loop loads files [] [] of
        Inl e \<Rightarrow> Inl e
      | Inr (valid_records, invalid_records) \<Rightarrow> Inr (valid_records, length invalid_records))"

text \<open>
  \<open>parse_bib\<close> repeats the record loop inline, appending to the lists of the file loop:
  when \<open>int(year)\<close> raises, the \<open>except\<close> ends this file with the lists as they stand.
\<close>

fun parse_bib_entries ::
  "raw_record list \<Rightarrow> row list \<Rightarrow> raw_record list \<Rightarrow> row list \<times> raw_record list" where
  "parse_bib_entries [] valid_records invalid_records = (valid_records, invalid_records)"
| "parse_bib_entries (entry # entries) valid_records invalid_records =
     (let title = entry ''title''; abstract = entry ''abstract''; year = entry ''year'' in
      if truthy title \<and> truthy abstract \<and> truthy year then
        (case py_int (the year) of
           None \<Rightarrow> (valid_records, invalid_records)
         | Some y \<Rightarrow>
             parse_bib_entries entries
               (valid_records @ [\<lparr>Titulo = the title, Resumen = the abstract, Fecha = y\<rparr>])
               invalid_records)
      else parse_bib_entries entries valid_records (invalid_records @ [entry]))"

fun parse_bib_loop ::
  "loader \<Rightarrow> uploaded_file list \<Rightarrow> row list \<Rightarrow> raw_record list
     \<Rightarrow> error + (row list \<times> raw_record list)" where
  "parse_bib_loop loads [] valid_records invalid_records = Inr (valid_records, invalid_records)"
| "parse_bib_loop loads (file # files) valid_records invalid_records =
     (case file_text file of
        None \<Rightarrow> Inl UnicodeDecodeError
      | Some bib_data \<Rightarrow>
          (case loads bib_data of
             None \<Rightarrow> parse_bib_loop loads files valid_records invalid_records
           | Some entries \<Rightarrow>
               (case parse_bib_entries entries valid_records invalid_records of
                  (valid_records', invalid_records') \<Rightarrow>
                    parse_bib_loop loads files valid_records' invalid_records')))"

definition parse_bib :: "loader \<Rightarrow> uploaded_file list \<Rightarrow> error + (row list \<times> nat)" where
  "parse_bib loads files =
     (case parse_bib_loop loads files [] [] of
        Inl e \<Rightarrow> Inl e
      | Inr (valid_records, invalid_records) \<Rightarrow> Inr (valid_records, length invalid_records))"

section \<open>Aggregation in the main flow\<close>

definition endswith :: "string \<Rightarrow> string \<Rightarrow> bool" where
  "endswith s suf = (length suf \<le> length s \<and> drop (length s - length suf) s = suf)"

text \<open>
  The loop over the uploaded files keeps one data frame per format; \<open>pd.concat\<close> appends
  rows. A file whose name ends with neither extension is passed over.
\<close>

fun upload_loop ::
  "loader \<Rightarrow> loader \<Rightarrow> uploaded_file list \<Rightarrow> row list \<Rightarrow> row list \<Rightarrow> nat
     \<Rightarrow> error + (row list \<times> row list \<times> nat)" where
  "upload_loop loads_ris loads_bib [] valid_ris_df valid_bib_df total_invalid =
     Inr (valid_ris_df, valid_bib_df, total_invalid)"
| "upload_loop loads_ris loads_bib (file # files) valid_ris_df valid_bib_df total_invalid =
     (if endswith (file_name file) ''.ris'' then
        (case parse_ris loads_ris [file] of
           Inl e \<Rightarrow> Inl e
         | Inr (ris_df, invalid_ris_count) \<Rightarrow>
             upload_loop loads_ris loads_bib files (valid_ris_df @ ris_df) valid_bib_df
               (total_invalid + invalid_ris_count))
      else if endswith (file_name file) ''.bib'' then
        (case parse_bib loads_bib [file] of
           Inl e \<Rightarrow> Inl e
         | Inr (bib_df, invalid_bib_count) \<Rightarrow>
             upload_loop loads_ris loads_bib files valid_ris_df (valid_bib_df @ bib_df)
               (total_invalid + invalid_bib_count))
      else upload_loop loads_ris loads_bib files valid_ris_df valid_bib_df total_invalid)"

text \<open>\<open>combined_df\<close> and \<open>total_invalid\<close> as they stand after line 164 of the source.\<close>

definition combine_uploads ::
  "loader \<Rightarrow> loader \<Rightarrow> uploaded_file list \<Rightarrow> error + (row list \<times> nat)" where
  "combine_uploads loads_ris loads_bib uploaded_files =
     (case upload_loop loads_ris loads_bib uploaded_files [] [] 0 of
        Inl e \<Rightarrow> Inl e
      | Inr (valid_ris_df, valid_bib_df, total_invalid) \<Rightarrow>
          Inr (valid_ris_df @ valid_bib_df, total_invalid))"

section \<open>Duplicate Resolver\<close>

text \<open>The columns of \<open>subset=[Titulo, Resumen]\<close>, compared as Python compares \<open>str\<close>.\<close>

definition subset_key :: "'a row_scheme \<Rightarrow> string \<times> string" where
  "subset_key r = (Titulo r, Resumen r)"

text \<open>\<open>df.duplicated(subset, keep=False)\<close>: the mask of the rows whose key occurs again.\<close>

definition duplicated_keep_false :: "'a row_scheme list \<Rightarrow> bool list" where
  "duplicated_keep_false df =
     map (\<lambda>r. 1 < length (filter (\<lambda>q. subset_key q = subset_key r) df)) df"

text \<open>Boolean indexing \<open>df[mask]\<close>.\<close>

definition select_mask :: "'a list \<Rightarrow> bool list \<Rightarrow> 'a list" where
  "select_mask df marks = map fst (filter snd (zip df marks))"

definition find_duplicates :: "'a row_scheme list \<Rightarrow> 'a row_scheme list" where
  "find_duplicates df = select_mask df (duplicated_keep_false df)"

text \<open>\<open>df.duplicated(subset, keep='first')\<close>: a row is marked when its key was seen before.\<close>

fun duplicated_keep_first :: "(string \<times> string) list \<Rightarrow> 'a row_scheme list \<Rightarrow> bool list" where
  "duplicated_keep_first seen [] = []"
| "duplicated_keep_first seen (r # rs) =
     (subset_key r \<in> set seen) # duplicated_keep_first (seen @ [subset_key r]) rs"

definition drop_duplicates :: "'a row_scheme list \<Rightarrow> 'a row_scheme list" where
  "drop_duplicates df = select_mask df (map Not (duplicated_keep_first [] df))"

text \<open>
  The resolver as the main flow runs it (lines 173 to 181): \<open>drop_duplicates\<close> is called
  only when \<open>find_duplicates\<close> found something.
\<close>

definition resolve_duplicates :: "'a row_scheme list \<Rightarrow> 'a row_scheme list \<times> 'a row_scheme list" where
  "resolve_duplicates combined_df =
     (let duplicates_df = find_duplicates combined_df in
      (duplicates_df,
       if duplicates_df \<noteq> [] then drop_duplicates combined_df else combined_df))"

section \<open>Coherence Scorer\<close>

text \<open>
  \<open>TfidfVectorizer(stop_words='english')\<close> and \<open>cosine_similarity\<close> are scikit-learn's. The
  analyzer of the vectorizer (lower-casing, the token pattern and the removal of the English
  stop words) is a parameter: text to its terms. The rest of \<open>fit_transform\<close> is written out
  with the vectorizer's defaults: the vocabulary is the sorted set of the terms of all
  documents, and an empty vocabulary raises \<open>ValueError\<close>; the weight of a term in a document
  is its count times \<open>ln ((1 + n) / (1 + df)) + 1\<close>; every row is divided by its Euclidean
  norm unless that is zero. The fitted vocabulary and weights are stored in the vectorizer
  object, which is the state threaded through the calls. Floating-point numbers are
  modelled as real numbers.
\<close>

type_synonym analyzer = "string \<Rightarrow> string list"

record tfidf_vectorizer =
  vocabulary_ :: "string list"
  idf_ :: "real list"

definition new_vectorizer :: tfidf_vectorizer where
  "new_vectorizer = \<lparr>vocabulary_ = [], idf_ = []\<rparr>"

definition idf :: "nat \<Rightarrow> nat \<Rightarrow> real" where
  "idf n_docs df = ln ((1 + real n_docs) / (1 + real df)) + 1"

definition l2_norm :: "real list \<Rightarrow> real" where
  "l2_norm v = sqrt (sum_list (map (\<lambda>x. x * x) v))"

definition l2_normalize :: "real list \<Rightarrow> real list" where
  "l2_normalize v = (if l2_norm v = 0 then v else map (\<lambda>x. x / l2_norm v) v)"

definition dot :: "real list \<Rightarrow> real list \<Rightarrow> real" where
  "dot u v = sum_list (map2 (*) u v)"

definition fit_transform ::
  "analyzer \<Rightarrow> tfidf_vectorizer \<Rightarrow> string list \<Rightarrow> error + (tfidf_vectorizer \<times> real list list)" where
  "fit_transform analyze vectorizer raw_documents =
     (let docs = map analyze raw_documents;
          vocabulary = sort (remdups (concat docs)) in
      if vocabulary = [] then Inl ValueError
      else
        let X = map (\<lambda>d. map (\<lambda>t. real (count_list d t)) vocabulary) docs;
            dfs = map (\<lambda>t. length (filter (\<lambda>d. t \<in> set d) docs)) vocabulary;
            idfs = map (idf (length docs)) dfs;
            tfidf = map (\<lambda>counts. l2_normalize (map2 (*) counts idfs)) X
        in Inr (vectorizer\<lparr>vocabulary_ := vocabulary, idf_ := idfs\<rparr>, tfidf))"

text \<open>\<open>cosine_similarity(X, Y)\<close> normalises the rows of both arguments and multiplies.\<close>

definition cosine_similarity :: "real list list \<Rightarrow> real list list \<Rightarrow> real list list" where
  "cosine_similarity X Y = map (\<lambda>x. map (\<lambda>y. dot (l2_normalize x) (l2_normalize y)) Y) X"

text \<open>The index \<open>[0]\<close>.\<close>

definition index0 :: "'a list \<Rightarrow> error + 'a" where
  "index0 xs = (case xs of [] \<Rightarrow> Inl IndexError | x # _ \<Rightarrow> Inr x)"

text \<open>
  The body of the loop of \<open>check_similarity\<close> for one row: the slices \<open>[0:1]\<close> and \<open>[1:2]\<close> of
  the matrix, and the entry \<open>[0][0]\<close> of the product.
\<close>

definition row_similarity ::
  "analyzer \<Rightarrow> tfidf_vectorizer \<Rightarrow> string \<Rightarrow> string \<Rightarrow> error + (tfidf_vectorizer \<times> real)" where
  "row_similarity analyze vectorizer title abstract =
     (case fit_transform analyze vectorizer [title, abstract] of
        Inl e \<Rightarrow> Inl e
      | Inr (vectorizer', tfidf_matrix) \<Rightarrow>
          (case index0 (cosine_similarity (take 1 tfidf_matrix) (take 1 (drop 1 tfidf_matrix))) of
             Inl e \<Rightarrow> Inl e
           | Inr first_row \<Rightarrow>
               (case index0 first_row of
                  Inl e \<Rightarrow> Inl e
                | Inr similarity \<Rightarrow> Inr (vectorizer', similarity))))"

fun similarity_loop ::
  "analyzer \<Rightarrow> tfidf_vectorizer \<Rightarrow> row list \<Rightarrow> real list \<Rightarrow> error + (tfidf_vectorizer \<times> real list)" where
  "similarity_loop analyze vectorizer [] similarities = Inr (vectorizer, similarities)"
| "similarity_loop analyze vectorizer (r # rows) similarities =
     (case row_similarity analyze vectorizer (Titulo r) (Resumen r) of
        Inl e \<Rightarrow> Inl e
      | Inr (vectorizer', similarity) \<Rightarrow>
          similarity_loop analyze vectorizer' rows (similarities @ [similarity]))"

text \<open>The assignment of the column \<open>Similitud\<close>, by position.\<close>

definition assign_similitud :: "row list \<Rightarrow> real list \<Rightarrow> scored_row list" where
  "assign_similitud df similarities =
     map2 (\<lambda>r s. \<lparr>Titulo = Titulo r, Resumen = Resumen r, Fecha = Fecha r, Similitud = s\<rparr>)
       df similarities"

definition check_similarity ::
  "analyzer \<Rightarrow> row list \<Rightarrow> real \<Rightarrow> error + (scored_row list \<times> scored_row list)" where
  "check_similarity analyze df threshold =
     (case similarity_loop analyze new_vectorizer df [] of
        Inl e \<Rightarrow> Inl e
      | Inr (vectorizer, similarities) \<Rightarrow>
          (let df' = assign_similitud df similarities;
               incoherent_records = filter (\<lambda>r. Similitud r < threshold) df';
               coherent_records = filter (\<lambda>r. Similitud r \<ge> threshold) df'
           in Inr (incoherent_records, coherent_records)))"

text \<open>
  The per-record function of the specification: the similarity of one title and one
  abstract, computed with a vectorizer of its own.
\<close>

definition pair_similarity :: "analyzer \<Rightarrow> string \<Rightarrow> string \<Rightarrow> error + real" where
  "pair_similarity analyze title abstract =
     (case row_similarity analyze new_vectorizer title abstract of
        Inl e \<Rightarrow> Inl e
      | Inr (vectorizer, similarity) \<Rightarrow> Inr similarity)"

text \<open>Mapping a function that may raise over a list: the first exception ends the run.\<close>

fun map_raising :: "('a \<Rightarrow> error + 'b) \<Rightarrow> 'a list \<Rightarrow> error + 'b list" where
  "map_raising f [] = Inr []"
| "map_raising f (x # xs) =
     (case f x of
        Inl e \<Rightarrow> Inl e
      | Inr y \<Rightarrow> (case map_raising f xs of Inl e \<Rightarrow> Inl e | Inr ys \<Rightarrow> Inr (y # ys)))"

section \<open>Selection Filter\<close>

text \<open>
  \<open>str.contains(pat, case=False)\<close> searches the text for the regular expression \<open>pat\<close>
  under \<open>re.IGNORECASE\<close>. The two patterns of the source are plain lower-case letters. A
  letter of the pattern matches itself, its capital and, for three letters, the letters
  outside ASCII that lower-case to it or that Python's regular expressions treat as the
  same: the dotted capital I (U+0130) and the dotless i (U+0131) for \<open>i\<close>, the long s
  (U+017F) for \<open>s\<close>, the Kelvin sign (U+212A) for \<open>k\<close>; \<open>case_variants\<close> lists their
  encodings.
\<close>

definition ascii_upper :: "char \<Rightarrow> char" where
  "ascii_upper c =
     (case map_of (zip ''abcdefghijklmnopqrstuvwxyz'' ''ABCDEFGHIJKLMNOPQRSTUVWXYZ'') c of
        None \<Rightarrow> c
      | Some u \<Rightarrow> u)"

definition case_variants :: "char \<Rightarrow> string list" where
  "case_variants p =
     [[p], [ascii_upper p]]
     @ (if p = CHR ''i'' then [[CHR 0xC4, CHR 0xB0], [CHR 0xC4, CHR 0xB1]]
        else if p = CHR ''s'' then [[CHR 0xC5, CHR 0xBF]]
        else if p = CHR ''k'' then [[CHR 0xE2, CHR 0x84, CHR 0xAA]]
        else [])"

fun startswith :: "string \<Rightarrow> string \<Rightarrow> bool" where
  "startswith s [] = True"
| "startswith [] (p # ps) = False"
| "startswith (c # cs) (p # ps) = (c = p \<and> startswith cs ps)"

text \<open>The pattern matched at the start of the text, letter by letter.\<close>

fun match_here :: "string \<Rightarrow> string \<Rightarrow> bool" where
  "match_here s [] = True"
| "match_here s (p # ps) =
     list_ex (\<lambda>v. startswith s v \<and> match_here (drop (length v) s) ps) (case_variants p)"

text \<open>The search tries every position of the text, from the left.\<close>

fun regex_search :: "string \<Rightarrow> string \<Rightarrow> bool" where
  "regex_search [] pat = match_here [] pat"
| "regex_search (c # cs) pat = (match_here (c # cs) pat \<or> regex_search cs pat)"

definition str_contains :: "string \<Rightarrow> string \<Rightarrow> bool" where
  "str_contains s pat = regex_search s pat"

definition apply_selection_criteria :: "'a row_scheme list \<Rightarrow> 'a row_scheme list" where
  "apply_selection_criteria df =
     (let keyword_filter =
            filter (\<lambda>r. str_contains (Resumen r) ''portfolio''
                       \<or> str_contains (Resumen r) ''optimization'') df;
          date_filter = filter (\<lambda>r. Fecha r \<ge> 2017 \<and> Fecha r \<le> 2024) keyword_filter
      in date_filter)"

section \<open>The main flow\<close>

text \<open>
  What lines 148 to 213 of the source write out: the counters, where \<open>None\<close> stands for a
  counter whose line is not reached. The whole result is \<open>None\<close> when nothing was uploaded.
\<close>

record report =
  total_records :: nat
  total_invalid :: nat
  valid_count :: nat
  duplicates_count :: nat
  deduplicated_count :: nat
  incoherent_count :: "nat option"
  coherent_count :: "nat option"
  selected_count :: "nat option"

definition main_flow ::
  "loader \<Rightarrow> loader \<Rightarrow> analyzer \<Rightarrow> uploaded_file list \<Rightarrow> error + report option" where
  "main_flow loads_ris loads_bib analyze uploaded_files =
     (if uploaded_files = [] then Inr None
      else
        (case combine_uploads loads_ris loads_bib uploaded_files of
           Inl e \<Rightarrow> Inl e
         | Inr (combined_df, invalid) \<Rightarrow>
             (case resolve_duplicates combined_df of
                (duplicates_df, deduplicated_df) \<Rightarrow>
                  (let counters = \<lparr>total_records = length combined_df + invalid,
                                   total_invalid = invalid,
                                   valid_count = length combined_df,
                                   duplicates_count = length duplicates_df,
                                   deduplicated_count = length deduplicated_df,
                                   incoherent_count = None,
                                   coherent_count = None,
                                   selected_count = None\<rparr> in
                   if deduplicated_df = [] then Inr (Some counters)
                   else
                     (case check_similarity analyze deduplicated_df (2 / 10) of
                        Inl e \<Rightarrow> Inl e
                      | Inr (incoherent_df, coherent_df) \<Rightarrow>
                          Inr (Some (counters
                            \<lparr>incoherent_count := Some (length incoherent_df),
                             coherent_count := Some (length coherent_df),
                             selected_count :=
                               (if coherent_df = [] then None
                                else Some (length (apply_selection_criteria coherent_df)))\<rparr>)))))))"

section \<open>Notions of the specification\<close>

text \<open>
  A raw record is complete when its three fields are present and not empty; a complete
  record has a bad year when \<open>int\<close> raises on it. \<open>to_row\<close> is the row a complete record
  with a good year is normalised to.
\<close>

definition is_complete :: "raw_record \<Rightarrow> bool" where
  "is_complete r = (truthy (r ''title'') \<and> truthy (r ''abstract'') \<and> truthy (r ''year''))"

definition bad_year :: "raw_record \<Rightarrow> bool" where
  "bad_year r = (is_complete r \<and> py_int (the (r ''year'')) = None)"

definition to_row :: "raw_record \<Rightarrow> row" where
  "to_row r = \<lparr>Titulo = the (r ''title''), Resumen = the (r ''abstract''),
              Fecha = the (py_int (the (r ''year'')))\<rparr>"

definition has_int_year :: "raw_record \<Rightarrow> bool" where
  "has_int_year r = (case r ''year'' of None \<Rightarrow> False | Some y \<Rightarrow> py_int y \<noteq> None)"

definition normalizes_to :: "raw_record \<Rightarrow> row \<Rightarrow> bool" where
  "normalizes_to r v =
     (r ''title'' = Some (Titulo v) \<and> r ''abstract'' = Some (Resumen v)
      \<and> (case r ''year'' of None \<Rightarrow> False | Some y \<Rightarrow> py_int y = Some (Fecha v)))"

text \<open>
  The rows one uploaded file adds to the collection, in the order of its parser: nothing
  when the parser fails; for a \<open>.ris\<close> file nothing when some record has a bad year; for a
  \<open>.bib\<close> file the rows before the first record with a bad year.
\<close>

definition ris_contribution :: "loader \<Rightarrow> uploaded_file \<Rightarrow> row list" where
  "ris_contribution loads file =
     (case file_text file of
        None \<Rightarrow> []
      | Some ris_data \<Rightarrow>
          (case loads ris_data of
             None \<Rightarrow> []
           | Some parsed_records \<Rightarrow>
               if list_ex bad_year parsed_records then []
               else map to_row (filter is_complete parsed_records)))"

definition bib_contribution :: "loader \<Rightarrow> uploaded_file \<Rightarrow> row list" where
  "bib_contribution loads file =
     (case file_text file of
        None \<Rightarrow> []
      | Some bib_data \<Rightarrow>
          (case loads bib_data of
             None \<Rightarrow> []
           | Some entries \<Rightarrow>
               map to_row (filter is_complete (takeWhile (\<lambda>r. \<not> bad_year r) entries))))"

text \<open>What one file adds to the invalid count.\<close>

definition ris_tally :: "loader \<Rightarrow> uploaded_file \<Rightarrow> nat" where
  "ris_tally loads file =
     (case file_text file of
        None \<Rightarrow> 0
      | Some ris_data \<Rightarrow>
          (case loads ris_data of
             None \<Rightarrow> 0
           | Some parsed_records \<Rightarrow>
               if list_ex bad_year parsed_records then 0
               else length (filter (\<lambda>r. \<not> is_complete r) parsed_records)))"

definition bib_tally :: "loader \<Rightarrow> uploaded_file \<Rightarrow> nat" where
  "bib_tally loads file =
     (case file_text file of
        None \<Rightarrow> 0
      | Some bib_data \<Rightarrow>
          (case loads bib_data of
             None \<Rightarrow> 0
           | Some entries \<Rightarrow>
               length (filter (\<lambda>r. \<not> is_complete r) (takeWhile (\<lambda>r. \<not> bad_year r) entries))))"

definition is_ris :: "uploaded_file \<Rightarrow> bool" where
  "is_ris file = endswith (file_name file) ''.ris''"

definition is_bib :: "uploaded_file \<Rightarrow> bool" where
  "is_bib file = (\<not> endswith (file_name file) ''.ris'' \<and> endswith (file_name file) ''.bib'')"

text \<open>The rows in the order of arrival of their files, whatever the format.\<close>

definition arrival_order :: "loader \<Rightarrow> loader \<Rightarrow> uploaded_file list \<Rightarrow> row list" where
  "arrival_order loads_ris loads_bib files =
     concat (map (\<lambda>file. if is_ris file then ris_contribution loads_ris file
                          else if is_bib file then bib_contribution loads_bib file
                          else []) files)"

text \<open>The number of rows of a frame that carry the key of \<open>r\<close>.\<close>

definition key_count :: "'a row_scheme list \<Rightarrow> 'a row_scheme \<Rightarrow> nat" where
  "key_count df r = length (filter (\<lambda>q. subset_key q = subset_key r) df)"

text \<open>The terms of a title and an abstract; every row with the similarity of its own pair.\<close>

definition shared_terms :: "analyzer \<Rightarrow> string \<Rightarrow> string \<Rightarrow> string set" where
  "shared_terms analyze title abstract = set (analyze title) \<inter> set (analyze abstract)"

definition own_similarity :: "analyzer \<Rightarrow> row \<Rightarrow> real" where
  "own_similarity analyze r = projr (pair_similarity analyze (Titulo r) (Resumen r))"

definition scored :: "analyzer \<Rightarrow> row list \<Rightarrow> scored_row list" where
  "scored analyze df =
     map (\<lambda>r. \<lparr>Titulo = Titulo r, Resumen = Resumen r, Fecha = Fecha r,
               Similitud = own_similarity analyze r\<rparr>) df"

text \<open>
  A piece of text is a keyword up to the case of its letters when it is the keyword with
  every letter replaced by one of its case variants. The two predicates of the selection:
  the abstract contains such a piece for one of the two keywords, and the year is in range.
\<close>

definition same_ignoring_case :: "string \<Rightarrow> string \<Rightarrow> bool" where
  "same_ignoring_case piece keyword =
     (\<exists>letters. piece = concat letters
        \<and> list_all2 (\<lambda>letter p. letter \<in> set (case_variants p)) letters keyword)"

definition contains_ignoring_case :: "string \<Rightarrow> string \<Rightarrow> bool" where
  "contains_ignoring_case s keyword =
     (\<exists>pre piece post. s = pre @ piece @ post \<and> same_ignoring_case piece keyword)"

definition has_keyword :: "'a row_scheme \<Rightarrow> bool" where
  "has_keyword r =
     (contains_ignoring_case (Resumen r) ''portfolio''
      \<or> contains_ignoring_case (Resumen r) ''optimization'')"

definition in_year_range :: "'a row_scheme \<Rightarrow> bool" where
  "in_year_range r = (2017 \<le> Fecha r \<and> Fecha r \<le> 2024)"

section \<open>Sample inputs\<close>

text \<open>
  The records of the specification's end-to-end scenario, a record without a title, one
  whose year is a RIS date, and one whose texts are stop words and single letters only.
\<close>

definition raw_a :: raw_record where
  "raw_a = [''title'' \<mapsto> ''Portfolio Optimization Using AI'',
            ''abstract'' \<mapsto> ''This paper studies portfolio optimization with deep learning.'',
            ''year'' \<mapsto> ''2021'']"

definition raw_c :: raw_record where
  "raw_c = [''title'' \<mapsto> ''Unrelated Topic'',
            ''abstract'' \<mapsto> ''Completely different subject matter with no overlap.'',
            ''year'' \<mapsto> ''2015'']"

definition raw_no_title :: raw_record where
  "raw_no_title = [''abstract'' \<mapsto> ''An abstract without a title.'', ''year'' \<mapsto> ''2020'']"

definition raw_bad_year :: raw_record where
  "raw_bad_year = [''title'' \<mapsto> ''Robust Portfolios'',
            ''abstract'' \<mapsto> ''Portfolio selection under uncertainty.'',
            ''year'' \<mapsto> ''2020/05/01/'']"

definition row_a :: row where
  "row_a = \<lparr>Titulo = ''Portfolio Optimization Using AI'',
            Resumen = ''This paper studies portfolio optimization with deep learning.'',
            Fecha = 2021\<rparr>"

definition row_c :: row where
  "row_c = \<lparr>Titulo = ''Unrelated Topic'',
            Resumen = ''Completely different subject matter with no overlap.'',
            Fecha = 2015\<rparr>"

definition row_stop :: row where
  "row_stop = \<lparr>Titulo = ''Who are we?'', Resumen = ''N/A'', Fecha = 2020\<rparr>"

definition row_same :: row where
  "row_same = \<lparr>Titulo = ''Portfolio'', Resumen = ''portfolio.'', Fecha = 2024\<rparr>"

text \<open>A second record with the key of a and another year.\<close>

definition row_a_later :: row where
  "row_a_later = \<lparr>Titulo = ''Portfolio Optimization Using AI'',
            Resumen = ''This paper studies portfolio optimization with deep learning.'',
            Fecha = 2022\<rparr>"

text \<open>Rows with the keyword in capitals at the first year of the range, and past its end.\<close>

definition row_upper :: row where
  "row_upper = \<lparr>Titulo = ''Mean-variance models'',
            Resumen = ''A SURVEY OF CONVEX OPTIMIZATION.'', Fecha = 2017\<rparr>"

definition row_late :: row where
  "row_late = \<lparr>Titulo = ''Risk parity'',
            Resumen = ''Portfolio construction by risk parity.'', Fecha = 2025\<rparr>"

text \<open>
  Abstracts with the dotted capital I and with the dotless i in the keyword, and one with
  a keyword broken by a blank.
\<close>

definition row_dotted :: row where
  "row_dotted = \<lparr>Titulo = ''Allocation'',
            Resumen = ''PORTFOL'' @ [CHR 0xC4, CHR 0xB0] @ ''O CHOICE'', Fecha = 2020\<rparr>"

definition row_dotless :: row where
  "row_dotless = \<lparr>Titulo = ''Convexity'',
            Resumen = ''opt'' @ [CHR 0xC4, CHR 0xB1] @ ''mization in practice'', Fecha = 2024\<rparr>"

definition row_broken :: row where
  "row_broken = \<lparr>Titulo = ''Folios'', Resumen = ''A port folio of drawings.'', Fecha = 2020\<rparr>"

text \<open>A parser that knows four file texts and raises on every other.\<close>

definition sample_loads :: loader where
  "sample_loads data =
     (if data = ''scenario'' then Some [raw_a, raw_a, raw_c]
      else if data = ''one good, one bad year'' then Some [raw_a, raw_bad_year]
      else if data = ''only c'' then Some [raw_c]
      else if data = ''no title'' then Some [raw_no_title]
      else None)"

text \<open>
  An analyzer of the vectorizer's kind: lower case, maximal runs of letters and digits, of
  two characters at least, without the stop words of a short list.
\<close>

definition ascii_lower :: "char \<Rightarrow> char" where
  "ascii_lower c =
     (case map_of (zip ''ABCDEFGHIJKLMNOPQRSTUVWXYZ'' ''abcdefghijklmnopqrstuvwxyz'') c of
        None \<Rightarrow> c
      | Some l \<Rightarrow> l)"

definition is_word_char :: "char \<Rightarrow> bool" where
  "is_word_char c = (c \<in> set ''abcdefghijklmnopqrstuvwxyz0123456789_'')"

fun tokens :: "string \<Rightarrow> string \<Rightarrow> string list" where
  "tokens cur [] = (if cur = [] then [] else [cur])"
| "tokens cur (c # cs) =
     (if is_word_char c then tokens (cur @ [c]) cs
      else (if cur = [] then [] else [cur]) @ tokens [] cs)"

definition sample_analyze :: analyzer where
  "sample_analyze s =
     filter (\<lambda>t. 2 \<le> length t
                \<and> t \<notin> set [''this'', ''with'', ''no'', ''who'', ''are'', ''we'', ''the'', ''of''])
       (tokens [] (map ascii_lower s))"

text \<open>Sample uploads.\<close>

definition bad_file :: uploaded_file where
  "bad_file = \<lparr>file_name = ''b.ris'', file_text = Some ''one good, one bad year''\<rparr>"

definition bib_c_file :: uploaded_file where
  "bib_c_file = \<lparr>file_name = ''first.bib'', file_text = Some ''only c''\<rparr>"

definition ris_scenario_file :: uploaded_file where
  "ris_scenario_file = \<lparr>file_name = ''second.ris'', file_text = Some ''scenario''\<rparr>"

definition no_title_file :: uploaded_file where
  "no_title_file = \<lparr>file_name = ''untitled.ris'', file_text = Some ''no title''\<rparr>"

section \<open>The Normalizer\<close>

lemmas py_int_eval = py_int_def py_strip_def is_space_def parse_unsigned_def is_digit_def digit_val_def

lemma py_int_empty: "py_int [] = None"
  by (simp add: py_int_def py_strip_def)

lemma not_truthy_year: "\<not> truthy (r ''year'') \<Longrightarrow> \<not> has_int_year r"
  by (auto simp: truthy_def has_int_year_def py_int_empty split: option.splits)

lemma complete_normalizes:
  "is_complete r \<Longrightarrow> \<not> bad_year r \<Longrightarrow>
     normalizes_to r (to_row r) \<and> Titulo (to_row r) \<noteq> [] \<and> Resumen (to_row r) \<noteq> []"
  by (auto simp: is_complete_def bad_year_def normalizes_to_def to_row_def truthy_def
      split: option.splits)

lemma incomplete_fails:
  "\<not> is_complete r \<Longrightarrow>
     \<not> truthy (r ''title'') \<or> \<not> truthy (r ''abstract'') \<or> \<not> has_int_year r"
  using not_truthy_year by (auto simp: is_complete_def)

lemma filter_records_loop_step:
  "filter_records_loop (r # records) valid invalid =
     (if is_complete r then
        (case py_int (the (r ''year'')) of
           None \<Rightarrow> Inl ValueError
         | Some y \<Rightarrow>
             filter_records_loop records
               (valid @ [\<lparr>Titulo = the (r ''title''), Resumen = the (r ''abstract''), Fecha = y\<rparr>])
               invalid)
      else filter_records_loop records valid (invalid @ [r]))"
  by (simp add: is_complete_def Let_def)

lemma filter_records_loop_eq:
  "filter_records_loop records valid invalid =
     (if list_ex bad_year records then Inl ValueError
      else Inr (valid @ map to_row (filter is_complete records),
                invalid @ filter (\<lambda>r. \<not> is_complete r) records))"
proof (induction records arbitrary: valid invalid)
  case Nil
  then show ?case by simp
next
  case (Cons r0 records)
  show ?case
  proof (cases "is_complete r0")
    case True
    show ?thesis
      using Cons.IH True
      by (cases "py_int (the (r0 ''year''))")
         (simp_all add: filter_records_loop_step bad_year_def to_row_def
            del: filter_records_loop.simps)
  next
    case False
    show ?thesis
      using Cons.IH False
      by (simp add: filter_records_loop_step bad_year_def del: filter_records_loop.simps)
  qed
qed

lemma filter_records_eq:
  "filter_records records =
     (if list_ex bad_year records then Inl ValueError
      else Inr (map to_row (filter is_complete records), filter (\<lambda>r. \<not> is_complete r) records))"
  by (simp add: filter_records_def filter_records_loop_eq)

text \<open>
  C7. Whenever \<open>filter_records\<close> returns, every row of the valid list has a non-empty
  title, a non-empty abstract and the integer its record's year converts to, every record
  of the invalid list is a record of the input that lacks a non-empty title, a non-empty
  abstract or a year that converts, and no record is lost.
\<close>

theorem normalizer_validity:
  "filter_records records = Inr (valid, invalid) \<Longrightarrow>
     (\<forall>v \<in> set valid. Titulo v \<noteq> [] \<and> Resumen v \<noteq> []
        \<and> (\<exists>r \<in> set records. normalizes_to r v))
     \<and> (\<forall>r \<in> set invalid. r \<in> set records
        \<and> (\<not> truthy (r ''title'') \<or> \<not> truthy (r ''abstract'') \<or> \<not> has_int_year r))
     \<and> length valid + length invalid = length records"
proof -
  assume h: "filter_records records = Inr (valid, invalid)"
  then have nb: "\<not> list_ex bad_year records"
    and v: "valid = map to_row (filter is_complete records)"
    and i: "invalid = filter (\<lambda>r. \<not> is_complete r) records"
    by (auto simp: filter_records_eq split: if_splits)
  have "\<And>r. r \<in> set records \<Longrightarrow> is_complete r \<Longrightarrow> \<not> bad_year r"
    using nb by (auto simp: list_ex_iff)
  then have 1: "\<forall>v \<in> set valid. Titulo v \<noteq> [] \<and> Resumen v \<noteq> []
        \<and> (\<exists>r \<in> set records. normalizes_to r v)"
    unfolding v using complete_normalizes by fastforce
  have 2: "\<forall>r \<in> set invalid. r \<in> set records
        \<and> (\<not> truthy (r ''title'') \<or> \<not> truthy (r ''abstract'') \<or> \<not> has_int_year r)"
    unfolding i using incomplete_fails by auto
  have 3: "length valid + length invalid = length records"
    unfolding v i by (simp add: sum_length_filter_compl)
  from 1 2 3 show ?thesis by blast
qed

lemma sample_filter: "filter_records [raw_a, raw_no_title] = Inr ([row_a], [raw_no_title])"
  by (simp add: filter_records_def raw_a_def raw_no_title_def row_a_def truthy_def py_int_eval)

theorem normalizer_validity_witness:
  "filter_records [raw_a, raw_no_title] = Inr ([row_a], [raw_no_title])
   \<and> Titulo row_a \<noteq> [] \<and> Resumen row_a \<noteq> [] \<and> normalizes_to raw_a row_a
   \<and> \<not> truthy (raw_no_title ''title'')"
proof -
  have h: "filter_records [raw_a, raw_no_title] = Inr ([row_a], [raw_no_title])"
    by (rule sample_filter)
  have n: "normalizes_to raw_a row_a"
    by (simp add: normalizes_to_def raw_a_def row_a_def py_int_eval)
  have t: "\<not> truthy (raw_no_title ''title'')"
    by (simp add: truthy_def raw_no_title_def)
  from normalizer_validity [OF h] have "Titulo row_a \<noteq> [] \<and> Resumen row_a \<noteq> []"
    by simp
  with h n t show ?thesis by simp
qed

text \<open>
  C1, as the code has it. A record of a \<open>.ris\<close> file with a title, an abstract and a year
  that is not empty and does not convert makes \<open>filter_records\<close> raise; the handler of
  \<open>parse_ris\<close> goes on with the next file, and this file adds no valid row and nothing to
  the invalid count.
\<close>

theorem bad_year_drops_ris_file:
  "file_text file = Some ris_data \<Longrightarrow> loads ris_data = Some parsed_records \<Longrightarrow>
   r \<in> set parsed_records \<Longrightarrow> truthy (r ''title'') \<Longrightarrow> truthy (r ''abstract'') \<Longrightarrow>
   r ''year'' = Some y \<Longrightarrow> y \<noteq> [] \<Longrightarrow> py_int y = None \<Longrightarrow>
     filter_records parsed_records = Inl ValueError
     \<and> parse_ris_loop loads (file # files) valid_records invalid_records
         = parse_ris_loop loads files valid_records invalid_records
     \<and> parse_ris loads [file] = Inr ([], 0)"
proof -
  assume a: "file_text file = Some ris_data" "loads ris_data = Some parsed_records"
    "r \<in> set parsed_records" "truthy (r ''title'')" "truthy (r ''abstract'')"
    "r ''year'' = Some y" "y \<noteq> []" "py_int y = None"
  then have "bad_year r"
    by (simp add: bad_year_def is_complete_def truthy_def)
  with a(3) have "list_ex bad_year parsed_records"
    by (auto simp: list_ex_iff)
  then have f: "filter_records parsed_records = Inl ValueError"
    by (simp add: filter_records_eq)
  with a(1,2) show ?thesis
    by (simp add: parse_ris_def)
qed

text \<open>
  C1 as stated fails: the first record of this file is valid on its own, the second has
  the year \<open>2020/05/01/\<close>, and the file contributes no valid row and no invalid record.
\<close>

theorem bad_year_counterexample:
  "sample_loads ''one good, one bad year'' = Some [raw_a, raw_bad_year]
   \<and> raw_bad_year ''year'' = Some ''2020/05/01/'' \<and> py_int ''2020/05/01/'' = None
   \<and> filter_records [raw_a] = Inr ([row_a], [])
   \<and> parse_ris sample_loads [bad_file] = Inr ([], 0)"
  by (simp add: sample_loads_def raw_bad_year_def raw_a_def row_a_def bad_file_def parse_ris_def
      filter_records_def truthy_def py_int_eval)

theorem bad_year_drops_ris_file_witness:
  "filter_records [raw_a, raw_bad_year] = Inl ValueError
   \<and> parse_ris sample_loads [bad_file] = Inr ([], 0)"
proof -
  have 1: "file_text bad_file = Some ''one good, one bad year''"
    by (simp add: bad_file_def)
  have 2: "sample_loads ''one good, one bad year'' = Some [raw_a, raw_bad_year]"
    by (simp add: sample_loads_def)
  have 3: "raw_bad_year \<in> set [raw_a, raw_bad_year]" by simp
  have 4: "truthy (raw_bad_year ''title'')" "truthy (raw_bad_year ''abstract'')"
    by (simp_all add: truthy_def raw_bad_year_def)
  have 5: "raw_bad_year ''year'' = Some ''2020/05/01/''" by (simp add: raw_bad_year_def)
  have 6: "''2020/05/01/'' \<noteq> []" by simp
  have 7: "py_int ''2020/05/01/'' = None" by (simp add: py_int_eval)
  from bad_year_drops_ris_file [of bad_file _ sample_loads _ raw_bad_year _ "[]" "[]" "[]",
      OF 1 2 3 4 5 6 7]
  show ?thesis by simp
qed

section \<open>The Aggregator\<close>

lemma parse_ris_single:
  "parse_ris loads [file] =
     (if file_text file = None then Inl UnicodeDecodeError
      else Inr (ris_contribution loads file, ris_tally loads file))"
  by (simp add: parse_ris_def ris_contribution_def ris_tally_def filter_records_eq
      split: option.splits)

lemma parse_bib_entries_step:
  "parse_bib_entries (r # entries) valid invalid =
     (if is_complete r then
        (case py_int (the (r ''year'')) of
           None \<Rightarrow> (valid, invalid)
         | Some y \<Rightarrow>
             parse_bib_entries entries
               (valid @ [\<lparr>Titulo = the (r ''title''), Resumen = the (r ''abstract''), Fecha = y\<rparr>])
               invalid)
      else parse_bib_entries entries valid (invalid @ [r]))"
  by (simp add: is_complete_def Let_def)

lemma parse_bib_entries_eq:
  "parse_bib_entries entries valid invalid =
     (valid @ map to_row (filter is_complete (takeWhile (\<lambda>r. \<not> bad_year r) entries)),
      invalid @ filter (\<lambda>r. \<not> is_complete r) (takeWhile (\<lambda>r. \<not> bad_year r) entries))"
proof (induction entries arbitrary: valid invalid)
  case Nil
  then show ?case by simp
next
  case (Cons r0 entries)
  show ?case
  proof (cases "is_complete r0")
    case True
    show ?thesis
      using Cons.IH True
      by (cases "py_int (the (r0 ''year''))")
         (simp_all add: parse_bib_entries_step bad_year_def to_row_def
            del: parse_bib_entries.simps)
  next
    case False
    show ?thesis
      using Cons.IH False
      by (simp add: parse_bib_entries_step bad_year_def del: parse_bib_entries.simps)
  qed
qed

lemma parse_bib_single:
  "parse_bib loads [file] =
     (if file_text file = None then Inl UnicodeDecodeError
      else Inr (bib_contribution loads file, bib_tally loads file))"
  by (simp add: parse_bib_def bib_contribution_def bib_tally_def parse_bib_entries_eq
      split: option.splits)

lemma upload_loop_rows:
  "upload_loop loads_ris loads_bib files valid_ris_df valid_bib_df tally
     = Inr (ris_df, bib_df, n) \<Longrightarrow>
   ris_df = valid_ris_df @ concat (map (ris_contribution loads_ris) (filter is_ris files))
   \<and> bib_df = valid_bib_df @ concat (map (bib_contribution loads_bib) (filter is_bib files))"
proof (induction files arbitrary: valid_ris_df valid_bib_df tally)
  case Nil
  then show ?case by simp
next
  case (Cons f files)
  show ?case
  proof (cases "endswith (file_name f) ''.ris''")
    case True
    with Cons.prems have
      "upload_loop loads_ris loads_bib files (valid_ris_df @ ris_contribution loads_ris f)
         valid_bib_df (tally + ris_tally loads_ris f) = Inr (ris_df, bib_df, n)"
      by (simp add: parse_ris_single split: if_splits)
    from Cons.IH [OF this] True show ?thesis
      by (simp add: is_ris_def is_bib_def)
  next
    case False
    note nr = this
    show ?thesis
    proof (cases "endswith (file_name f) ''.bib''")
      case True
      with Cons.prems nr have
        "upload_loop loads_ris loads_bib files valid_ris_df
           (valid_bib_df @ bib_contribution loads_bib f)
           (tally + bib_tally loads_bib f) = Inr (ris_df, bib_df, n)"
        by (simp add: parse_bib_single split: if_splits)
      from Cons.IH [OF this] True nr show ?thesis
        by (simp add: is_ris_def is_bib_def)
    next
      case False
      with Cons.prems nr have
        "upload_loop loads_ris loads_bib files valid_ris_df valid_bib_df tally
           = Inr (ris_df, bib_df, n)"
        by simp
      from Cons.IH [OF this] False nr show ?thesis
        by (simp add: is_ris_def is_bib_def)
    qed
  qed
qed

text \<open>
  C3, as the code has it. The collection handed to the Duplicate Resolver lists the valid
  rows of all \<open>.ris\<close> files, file by file in the order of upload, and after them the valid
  rows of all \<open>.bib\<close> files, file by file in the order of upload; the rows of one file
  keep the order of its parser.
\<close>

theorem combined_by_format_then_arrival:
  "combine_uploads loads_ris loads_bib uploaded_files = Inr (combined_df, n) \<Longrightarrow>
     combined_df =
       concat (map (ris_contribution loads_ris) (filter is_ris uploaded_files))
       @ concat (map (bib_contribution loads_bib) (filter is_bib uploaded_files))"
proof -
  assume "combine_uploads loads_ris loads_bib uploaded_files = Inr (combined_df, n)"
  then obtain ris_df bib_df where
    u: "upload_loop loads_ris loads_bib uploaded_files [] [] 0 = Inr (ris_df, bib_df, n)"
    and c: "combined_df = ris_df @ bib_df"
    by (auto simp: combine_uploads_def split: sum.splits)
  from upload_loop_rows [OF u] c show ?thesis by simp
qed

lemmas sample_eval = sample_loads_def raw_a_def raw_c_def raw_no_title_def row_a_def row_c_def
  truthy_def py_int_def py_strip_def is_space_def parse_unsigned_def is_digit_def digit_val_def
  endswith_def

lemma sample_combined:
  "combine_uploads sample_loads sample_loads [bib_c_file, ris_scenario_file]
     = Inr ([row_a, row_a, row_c, row_c], 0)"
  by (simp add: combine_uploads_def parse_ris_def parse_bib_def filter_records_def
      bib_c_file_def ris_scenario_file_def sample_eval)

text \<open>
  C3 as stated fails: the \<open>.bib\<close> file is uploaded first and holds the record c, the
  \<open>.ris\<close> file is uploaded second and holds a, a, c; the collection starts with the rows
  of the second file.
\<close>

theorem arrival_order_counterexample:
  "combine_uploads sample_loads sample_loads [bib_c_file, ris_scenario_file]
     = Inr ([row_a, row_a, row_c, row_c], 0)
   \<and> arrival_order sample_loads sample_loads [bib_c_file, ris_scenario_file]
     = [row_c, row_a, row_a, row_c]
   \<and> row_a \<noteq> row_c"
  by (simp add: combine_uploads_def parse_ris_def parse_bib_def filter_records_def
      bib_c_file_def ris_scenario_file_def sample_eval
      arrival_order_def is_ris_def is_bib_def ris_contribution_def bib_contribution_def
      bad_year_def is_complete_def to_row_def)

theorem combined_by_format_then_arrival_witness:
  "[row_a, row_a, row_c, row_c] =
     concat (map (ris_contribution sample_loads) (filter is_ris [bib_c_file, ris_scenario_file]))
     @ concat (map (bib_contribution sample_loads) (filter is_bib [bib_c_file, ris_scenario_file]))"
  using combined_by_format_then_arrival [OF sample_combined] by simp

section \<open>The empty collection\<close>

lemma resolve_duplicates_empty: "resolve_duplicates [] = ([], [])"
  by (simp add: resolve_duplicates_def find_duplicates_def duplicated_keep_false_def
      select_mask_def)

text \<open>
  C2, as the code has it. When files were uploaded and no valid record remains, duplicate
  detection runs on the empty collection and finds nothing, the scoring and selection
  stages are not entered and their counters are not written, the valid, duplicate and
  deduplicated counters are zero, the total and the invalid counter both show the number
  of invalid records, and no exception is raised.
\<close>

theorem empty_collection_report:
  "uploaded_files \<noteq> [] \<Longrightarrow>
   combine_uploads loads_ris loads_bib uploaded_files = Inr ([], invalid) \<Longrightarrow>
     main_flow loads_ris loads_bib analyze uploaded_files =
       Inr (Some \<lparr>total_records = invalid, total_invalid = invalid, valid_count = 0,
                  duplicates_count = 0, deduplicated_count = 0, incoherent_count = None,
                  coherent_count = None, selected_count = None\<rparr>)"
  by (simp add: main_flow_def resolve_duplicates_empty)

lemma sample_no_title:
  "combine_uploads sample_loads sample_loads [no_title_file] = Inr ([], 1)"
  by (simp add: combine_uploads_def parse_ris_def filter_records_def no_title_file_def
      sample_loads_def raw_no_title_def truthy_def endswith_def)

text \<open>
  C2 as stated fails: a file whose only record has no title leaves zero valid records, and
  the total and the invalid counter are 1.
\<close>

theorem empty_collection_counterexample:
  "combine_uploads sample_loads sample_loads [no_title_file] = Inr ([], 1)
   \<and> main_flow sample_loads sample_loads sample_analyze [no_title_file] =
       Inr (Some \<lparr>total_records = 1, total_invalid = 1, valid_count = 0,
                  duplicates_count = 0, deduplicated_count = 0, incoherent_count = None,
                  coherent_count = None, selected_count = None\<rparr>)"
  by (simp add: main_flow_def resolve_duplicates_empty sample_no_title)

theorem empty_collection_report_witness:
  "[no_title_file] \<noteq> []
   \<and> main_flow sample_loads sample_loads sample_analyze [no_title_file] =
       Inr (Some \<lparr>total_records = 1, total_invalid = 1, valid_count = 0,
                  duplicates_count = 0, deduplicated_count = 0, incoherent_count = None,
                  coherent_count = None, selected_count = None\<rparr>)"
proof -
  have n: "[no_title_file] \<noteq> []" by simp
  from empty_collection_report [OF n sample_no_title, of sample_analyze] n
  show ?thesis by simp
qed

section \<open>The Duplicate Resolver\<close>

lemma select_mask_map: "select_mask df (map P df) = filter P df"
  by (induction df) (simp_all add: select_mask_def)

lemma find_duplicates_filter: "find_duplicates df = filter (\<lambda>r. 1 < key_count df r) df"
  by (simp add: find_duplicates_def duplicated_keep_false_def key_count_def select_mask_map)

lemma select_mask_Cons:
  "select_mask (r # df) (b # bs) = (if b then r # select_mask df bs else select_mask df bs)"
  by (simp add: select_mask_def)

lemma select_mask_Nil: "select_mask [] bs = []"
  by (simp add: select_mask_def)

lemma keep_first_keys:
  "set (map subset_key (select_mask df (map Not (duplicated_keep_first seen df))))
     = set (map subset_key df) - set seen"
  by (induction df arbitrary: seen) (auto simp: select_mask_Cons select_mask_Nil)

lemma keep_first_distinct:
  "distinct (map subset_key (select_mask df (map Not (duplicated_keep_first seen df))))"
proof (induction df arbitrary: seen)
  case Nil
  show ?case by (simp add: select_mask_Nil)
next
  case (Cons r df)
  have "subset_key r \<notin>
      set (map subset_key (select_mask df (map Not (duplicated_keep_first (seen @ [subset_key r]) df))))"
    unfolding keep_first_keys by simp
  with Cons.IH [of "seen @ [subset_key r]"] show ?case
    by (simp add: select_mask_Cons)
qed

lemma keep_first_find:
  "find (\<lambda>r. subset_key r = k) (select_mask df (map Not (duplicated_keep_first seen df)))
     = (if k \<in> set seen then None else find (\<lambda>r. subset_key r = k) df)"
proof (induction df arbitrary: seen)
  case Nil
  show ?case by (simp add: select_mask_Nil)
next
  case (Cons r df)
  show ?case
    using Cons.IH [of "seen @ [subset_key r]"]
    by (auto simp: select_mask_Cons)
qed

lemma keep_first_unchanged:
  "distinct (map subset_key df) \<Longrightarrow> set (map subset_key df) \<inter> set seen = {} \<Longrightarrow>
     select_mask df (map Not (duplicated_keep_first seen df)) = df"
proof (induction df arbitrary: seen)
  case Nil
  show ?case by (simp add: select_mask_Nil)
next
  case (Cons r df)
  from Cons.prems have "set (map subset_key df) \<inter> set (seen @ [subset_key r]) = {}"
    by auto
  with Cons.IH [of "seen @ [subset_key r]"] Cons.prems show ?case
    by (auto simp: select_mask_Cons)
qed

lemma drop_duplicates_distinct: "distinct (map subset_key (drop_duplicates df))"
  by (simp only: drop_duplicates_def keep_first_distinct)

lemma drop_duplicates_find:
  "find (\<lambda>r. subset_key r = k) (drop_duplicates df) = find (\<lambda>r. subset_key r = k) df"
  by (simp add: drop_duplicates_def keep_first_find)

lemma drop_duplicates_unchanged: "distinct (map subset_key df) \<Longrightarrow> drop_duplicates df = df"
  by (simp add: drop_duplicates_def keep_first_unchanged)

lemma key_count_distinct:
  "distinct (map subset_key df) \<longleftrightarrow> (\<forall>r \<in> set df. key_count df r \<le> 1)"
proof (induction df)
  case Nil
  show ?case by simp
next
  case (Cons a df)
  have c: "\<And>r. key_count (a # df) r
      = (if subset_key a = subset_key r then Suc (key_count df r) else key_count df r)"
    by (simp add: key_count_def)
  have z: "\<And>r. key_count df r = 0 \<longleftrightarrow> subset_key r \<notin> subset_key ` set df"
    by (auto simp: key_count_def filter_empty_conv image_iff)
  show ?case
  proof
    assume d: "distinct (map subset_key (a # df))"
    then have "\<forall>r \<in> set df. key_count df r \<le> 1" using Cons.IH by simp
    moreover from d have "key_count df a = 0" using z by simp
    moreover from d have "\<forall>r \<in> set df. subset_key a \<noteq> subset_key r" by auto
    ultimately show "\<forall>r \<in> set (a # df). key_count (a # df) r \<le> 1"
      by (simp add: c)
  next
    assume h: "\<forall>r \<in> set (a # df). key_count (a # df) r \<le> 1"
    then have "key_count df a = 0" by (simp add: c)
    then have na: "subset_key a \<notin> subset_key ` set df" using z by simp
    have "\<forall>r \<in> set df. key_count df r \<le> 1"
    proof
      fix r assume "r \<in> set df"
      with h have "key_count (a # df) r \<le> 1" by simp
      then show "key_count df r \<le> 1" by (simp add: c split: if_splits)
    qed
    with Cons.IH na show "distinct (map subset_key (a # df))" by simp
  qed
qed

lemma find_duplicates_empty: "find_duplicates df = [] \<longleftrightarrow> distinct (map subset_key df)"
  by (auto simp: find_duplicates_filter filter_empty_conv key_count_distinct not_less)

lemma resolve_duplicates_pair:
  "resolve_duplicates df = (find_duplicates df, drop_duplicates df)"
proof (cases "find_duplicates df = []")
  case True
  then have "drop_duplicates df = df"
    by (simp add: find_duplicates_empty drop_duplicates_unchanged)
  with True show ?thesis
    by (simp add: resolve_duplicates_def)
next
  case False
  then show ?thesis
    by (simp add: resolve_duplicates_def)
qed

lemma resolve_duplicates_eq:
  "resolve_duplicates df = (filter (\<lambda>r. 1 < key_count df r) df, drop_duplicates df)"
  by (simp only: resolve_duplicates_pair find_duplicates_filter)

text \<open>
  C6. The duplicate group is the input restricted to the rows whose (title, abstract) key
  occurs more than once in it, with every participant; the deduplicated collection has
  pairwise different keys, and for every key its first row is the first row of the input
  with that key (and it has no row for a key the input lacks).
\<close>

theorem duplicate_resolver_correct:
  "resolve_duplicates df = (duplicateGroup, deduplicated) \<Longrightarrow>
     duplicateGroup = filter (\<lambda>r. 1 < key_count df r) df
     \<and> distinct (map subset_key deduplicated)
     \<and> (\<forall>k. find (\<lambda>r. subset_key r = k) deduplicated = find (\<lambda>r. subset_key r = k) df)"
  by (auto simp: resolve_duplicates_eq drop_duplicates_distinct drop_duplicates_find)

lemma sample_resolve:
  "resolve_duplicates [row_a, row_c, row_a_later, row_a]
     = ([row_a, row_a_later, row_a], [row_a, row_c])"
  by (simp add: resolve_duplicates_def find_duplicates_def duplicated_keep_false_def
      drop_duplicates_def select_mask_def subset_key_def row_a_def row_c_def row_a_later_def)

theorem duplicate_resolver_correct_witness:
  "resolve_duplicates [row_a, row_c, row_a_later, row_a]
     = ([row_a, row_a_later, row_a], [row_a, row_c])
   \<and> [row_a, row_a_later, row_a]
     = filter (\<lambda>r. 1 < key_count [row_a, row_c, row_a_later, row_a] r)
         [row_a, row_c, row_a_later, row_a]
   \<and> distinct (map subset_key [row_a, row_c])
   \<and> find (\<lambda>r. subset_key r = subset_key row_a_later) [row_a, row_c] = Some row_a"
proof -
  from duplicate_resolver_correct [OF sample_resolve]
  have "[row_a, row_a_later, row_a]
     = filter (\<lambda>r. 1 < key_count [row_a, row_c, row_a_later, row_a] r)
         [row_a, row_c, row_a_later, row_a]"
    and "distinct (map subset_key [row_a, row_c])"
    and "find (\<lambda>r. subset_key r = subset_key row_a_later) [row_a, row_c]
      = find (\<lambda>r. subset_key r = subset_key row_a_later) [row_a, row_c, row_a_later, row_a]"
    by blast+
  then show ?thesis
    using sample_resolve by (simp add: subset_key_def row_a_def row_a_later_def)
qed

text \<open>
  C9. Run on its own deduplicated output, the resolver finds no duplicate and returns
  that collection unchanged.
\<close>

theorem deduplication_idempotent:
  "resolve_duplicates (snd (resolve_duplicates df)) = ([], snd (resolve_duplicates df))"
proof -
  have d: "distinct (map subset_key (drop_duplicates df))"
    by (rule drop_duplicates_distinct)
  then have "find_duplicates (drop_duplicates df) = []"
    by (simp add: find_duplicates_empty)
  then show ?thesis
    by (simp add: resolve_duplicates_pair drop_duplicates_unchanged [OF d])
qed

theorem deduplication_idempotent_witness:
  "snd (resolve_duplicates [row_a, row_c, row_a_later, row_a]) = [row_a, row_c]
   \<and> resolve_duplicates [row_a, row_c] = ([], [row_a, row_c])"
  using deduplication_idempotent [of "[row_a, row_c, row_a_later, row_a]"]
  by (simp add: sample_resolve)

section \<open>The Selection Filter\<close>

lemma startswith_iff: "startswith s p \<longleftrightarrow> (\<exists>post. s = p @ post)"
  by (induction s p rule: startswith.induct) auto

lemma match_here_step:
  "match_here s (p # ps) \<longleftrightarrow>
     (\<exists>v rest. v \<in> set (case_variants p) \<and> s = v @ rest \<and> match_here rest ps)"
proof
  assume "match_here s (p # ps)"
  then obtain v where v: "v \<in> set (case_variants p)" "startswith s v"
      "match_here (drop (length v) s) ps"
    by (auto simp: list_ex_iff)
  from v(2) obtain rest where "s = v @ rest"
    using startswith_iff by blast
  with v show "\<exists>v rest. v \<in> set (case_variants p) \<and> s = v @ rest \<and> match_here rest ps"
    by auto
next
  assume "\<exists>v rest. v \<in> set (case_variants p) \<and> s = v @ rest \<and> match_here rest ps"
  then obtain v rest where v: "v \<in> set (case_variants p)" "s = v @ rest" "match_here rest ps"
    by blast
  then have "startswith s v \<and> match_here (drop (length v) s) ps"
    by (simp add: startswith_iff)
  with v(1) show "match_here s (p # ps)"
    by (auto simp: list_ex_iff)
qed

lemma same_ignoring_case_Nil: "same_ignoring_case piece [] \<longleftrightarrow> piece = []"
  by (auto simp: same_ignoring_case_def)

lemma same_ignoring_case_Cons:
  "same_ignoring_case piece (p # ps) \<longleftrightarrow>
     (\<exists>v piece'. v \<in> set (case_variants p) \<and> piece = v @ piece' \<and> same_ignoring_case piece' ps)"
proof
  assume "same_ignoring_case piece (p # ps)"
  then obtain letters where l: "piece = concat letters"
      "list_all2 (\<lambda>letter p. letter \<in> set (case_variants p)) letters (p # ps)"
    by (auto simp: same_ignoring_case_def)
  from l(2) obtain v ls where "letters = v # ls" "v \<in> set (case_variants p)"
      "list_all2 (\<lambda>letter p. letter \<in> set (case_variants p)) ls ps"
    by (auto simp: list_all2_Cons2)
  with l(1) have "v \<in> set (case_variants p) \<and> piece = v @ concat ls
      \<and> same_ignoring_case (concat ls) ps"
    by (auto simp: same_ignoring_case_def)
  then show "\<exists>v piece'. v \<in> set (case_variants p) \<and> piece = v @ piece'
      \<and> same_ignoring_case piece' ps"
    by blast
next
  assume "\<exists>v piece'. v \<in> set (case_variants p) \<and> piece = v @ piece'
      \<and> same_ignoring_case piece' ps"
  then obtain v piece' ls where v: "v \<in> set (case_variants p)" "piece = v @ piece'"
      "piece' = concat ls" "list_all2 (\<lambda>letter p. letter \<in> set (case_variants p)) ls ps"
    by (auto simp: same_ignoring_case_def)
  then have "piece = concat (v # ls)
      \<and> list_all2 (\<lambda>letter p. letter \<in> set (case_variants p)) (v # ls) (p # ps)"
    by simp
  then show "same_ignoring_case piece (p # ps)"
    unfolding same_ignoring_case_def by blast
qed

lemma match_here_iff:
  "match_here s pat \<longleftrightarrow> (\<exists>piece post. s = piece @ post \<and> same_ignoring_case piece pat)"
proof (induction pat arbitrary: s)
  case Nil
  show ?case by (simp add: same_ignoring_case_Nil)
next
  case (Cons p ps)
  show ?case
  proof
    assume "match_here s (p # ps)"
    then obtain v rest where v: "v \<in> set (case_variants p)" "s = v @ rest" "match_here rest ps"
      using match_here_step by blast
    from v(3) Cons.IH obtain piece' post where
      r: "rest = piece' @ post" "same_ignoring_case piece' ps"
      by blast
    from v(1) r(2) have "same_ignoring_case (v @ piece') (p # ps)"
      using same_ignoring_case_Cons by blast
    moreover from v(2) r(1) have "s = (v @ piece') @ post" by simp
    ultimately show "\<exists>piece post. s = piece @ post \<and> same_ignoring_case piece (p # ps)"
      by blast
  next
    assume "\<exists>piece post. s = piece @ post \<and> same_ignoring_case piece (p # ps)"
    then obtain piece post where
      s: "s = piece @ post" "same_ignoring_case piece (p # ps)"
      by blast
    from s(2) obtain v piece' where v: "v \<in> set (case_variants p)" "piece = v @ piece'"
        "same_ignoring_case piece' ps"
      using same_ignoring_case_Cons by blast
    from v(3) have "match_here (piece' @ post) ps"
      using Cons.IH by blast
    moreover from s(1) v(2) have "s = v @ (piece' @ post)" by simp
    ultimately show "match_here s (p # ps)"
      using v(1) match_here_step by blast
  qed
qed

lemma regex_search_iff: "regex_search s pat \<longleftrightarrow> contains_ignoring_case s pat"
proof (induction s)
  case Nil
  show ?case
    by (auto simp: match_here_iff contains_ignoring_case_def)
next
  case (Cons c cs)
  have "contains_ignoring_case (c # cs) pat
      \<longleftrightarrow> match_here (c # cs) pat \<or> contains_ignoring_case cs pat"
  proof
    assume "contains_ignoring_case (c # cs) pat"
    then obtain pre piece post where
      e: "c # cs = pre @ piece @ post" "same_ignoring_case piece pat"
      unfolding contains_ignoring_case_def by blast
    show "match_here (c # cs) pat \<or> contains_ignoring_case cs pat"
    proof (cases pre)
      case Nil
      with e have "c # cs = piece @ post \<and> same_ignoring_case piece pat" by simp
      then show ?thesis using match_here_iff by blast
    next
      case (Cons q qs)
      with e have "cs = qs @ piece @ post" by simp
      with e(2) show ?thesis unfolding contains_ignoring_case_def by blast
    qed
  next
    assume "match_here (c # cs) pat \<or> contains_ignoring_case cs pat"
    then show "contains_ignoring_case (c # cs) pat"
    proof
      assume "match_here (c # cs) pat"
      then obtain piece post where "c # cs = [] @ piece @ post" "same_ignoring_case piece pat"
        using match_here_iff by auto
      then show ?thesis unfolding contains_ignoring_case_def by blast
    next
      assume "contains_ignoring_case cs pat"
      then obtain pre piece post where
        "c # cs = (c # pre) @ piece @ post" "same_ignoring_case piece pat"
        unfolding contains_ignoring_case_def by auto
      then show ?thesis unfolding contains_ignoring_case_def by blast
    qed
  qed
  with Cons.IH show ?case by simp
qed

lemma keyword_filter_iff:
  "str_contains (Resumen r) ''portfolio'' \<or> str_contains (Resumen r) ''optimization''
     \<longleftrightarrow> has_keyword r"
  by (simp add: str_contains_def regex_search_iff has_keyword_def)

text \<open>
  C5. The output of the Selection Filter is the input restricted, in order, to the rows
  whose abstract contains \<open>portfolio\<close> or \<open>optimization\<close> whatever the case of its
  letters (as Python's regular expressions ignore case: the dotted capital I and the dotless
  i count as \<open>i\<close>) and whose year lies in 2017 to 2024: every output row is an input row
  with both properties, and every input row with both properties is in the output.
\<close>

theorem selection_correct:
  "apply_selection_criteria df = filter (\<lambda>r. has_keyword r \<and> in_year_range r) df
   \<and> (\<forall>r. r \<in> set (apply_selection_criteria df)
          \<longleftrightarrow> r \<in> set df \<and> in_year_range r \<and> has_keyword r)"
proof -
  have "apply_selection_criteria df = filter (\<lambda>r. has_keyword r \<and> in_year_range r) df"
    by (simp add: apply_selection_criteria_def keyword_filter_iff in_year_range_def conj_commute)
  then show ?thesis by auto
qed

lemma sample_selection:
  "apply_selection_criteria
      [row_a, row_c, row_upper, row_late, row_dotted, row_dotless, row_broken]
     = [row_a, row_upper, row_dotted, row_dotless]"
  by code_simp

theorem selection_correct_witness:
  "apply_selection_criteria
      [row_a, row_c, row_upper, row_late, row_dotted, row_dotless, row_broken]
     = [row_a, row_upper, row_dotted, row_dotless]
   \<and> has_keyword row_upper \<and> in_year_range row_upper
   \<and> has_keyword row_dotted \<and> in_year_range row_dotted
   \<and> has_keyword row_dotless \<and> in_year_range row_dotless
   \<and> \<not> (has_keyword row_late \<and> in_year_range row_late)
   \<and> \<not> (has_keyword row_broken \<and> in_year_range row_broken)"
proof -
  let ?df = "[row_a, row_c, row_upper, row_late, row_dotted, row_dotless, row_broken]"
  have d: "row_late \<notin> set [row_a, row_upper, row_dotted, row_dotless]"
    "row_broken \<notin> set [row_a, row_upper, row_dotted, row_dotless]"
    by code_simp+
  have u: "row_upper \<in> set (apply_selection_criteria ?df)"
    "row_dotted \<in> set (apply_selection_criteria ?df)"
    "row_dotless \<in> set (apply_selection_criteria ?df)"
    by (simp_all add: sample_selection)
  have l: "row_late \<notin> set (apply_selection_criteria ?df)"
    "row_broken \<notin> set (apply_selection_criteria ?df)"
    unfolding sample_selection by (fact d)+
  from selection_correct [of ?df]
  have iff: "\<And>r. r \<in> set (apply_selection_criteria ?df)
      \<longleftrightarrow> r \<in> set ?df \<and> in_year_range r \<and> has_keyword r"
    by blast
  have m: "row_late \<in> set ?df" "row_broken \<in> set ?df" by simp_all
  from iff [of row_upper] iff [of row_dotted] iff [of row_dotless] u
  have 1: "has_keyword row_upper \<and> in_year_range row_upper
      \<and> has_keyword row_dotted \<and> in_year_range row_dotted
      \<and> has_keyword row_dotless \<and> in_year_range row_dotless"
    by blast
  from iff [of row_late] iff [of row_broken] l m
  have 2: "\<not> (has_keyword row_late \<and> in_year_range row_late)
      \<and> \<not> (has_keyword row_broken \<and> in_year_range row_broken)"
    by blast
  from 1 2 sample_selection show ?thesis by blast
qed

section \<open>The Coherence Scorer\<close>

lemma l2_normalize_scales: "\<exists>k. l2_normalize (map f V) = map (\<lambda>t. k * f t) V"
proof (cases "l2_norm (map f V) = 0")
  case True
  then have "l2_normalize (map f V) = map (\<lambda>t. 1 * f t) V"
    by (simp add: l2_normalize_def)
  then show ?thesis by blast
next
  case False
  then have "l2_normalize (map f V) = map (\<lambda>t. (1 / l2_norm (map f V)) * f t) V"
    by (simp add: l2_normalize_def)
  then show ?thesis by blast
qed

lemma dot_disjoint:
  "(\<And>t. t \<in> set V \<Longrightarrow> f t = 0 \<or> g t = 0) \<Longrightarrow> dot (map f V) (map g V) = 0"
  by (induction V) (auto simp: dot_def)

lemma dot_normalized_disjoint:
  assumes "\<And>t. t \<in> set V \<Longrightarrow> f t = 0 \<or> g t = 0"
  shows "dot (l2_normalize (l2_normalize (map f V))) (l2_normalize (l2_normalize (map g V))) = 0"
proof -
  obtain k1 where 1: "l2_normalize (map f V) = map (\<lambda>t. k1 * f t) V"
    using l2_normalize_scales by blast
  obtain k2 where 2: "l2_normalize (map (\<lambda>t. k1 * f t) V) = map (\<lambda>t. k2 * (k1 * f t)) V"
    using l2_normalize_scales [of "\<lambda>t. k1 * f t" V] by blast
  obtain j1 where 3: "l2_normalize (map g V) = map (\<lambda>t. j1 * g t) V"
    using l2_normalize_scales by blast
  obtain j2 where 4: "l2_normalize (map (\<lambda>t. j1 * g t) V) = map (\<lambda>t. j2 * (j1 * g t)) V"
    using l2_normalize_scales [of "\<lambda>t. j1 * g t" V] by blast
  have "dot (map (\<lambda>t. k2 * (k1 * f t)) V) (map (\<lambda>t. j2 * (j1 * g t)) V) = 0"
    by (rule dot_disjoint) (use assms in auto)
  then show ?thesis by (simp add: 1 2 3 4)
qed

lemma pair_vocabulary_empty:
  "sort (remdups (analyze title @ analyze abstract)) = []
     \<longleftrightarrow> analyze title = [] \<and> analyze abstract = []"
proof -
  have "sort (remdups (analyze title @ analyze abstract)) = []
      \<longleftrightarrow> length (sort (remdups (analyze title @ analyze abstract))) = 0"
    by (simp only: length_0_conv)
  also have "\<dots> \<longleftrightarrow> remdups (analyze title @ analyze abstract) = []"
    by simp
  finally show ?thesis by simp
qed

lemma row_similarity_eq:
  "row_similarity analyze vectorizer title abstract =
     (let V = sort (remdups (analyze title @ analyze abstract));
          dfs = (\<lambda>t. length (filter (\<lambda>d. t \<in> set d) [analyze title, analyze abstract]));
          w = (\<lambda>d t. real (count_list d t) * idf 2 (dfs t))
      in if analyze title = [] \<and> analyze abstract = [] then Inl ValueError
         else Inr (vectorizer\<lparr>vocabulary_ := V, idf_ := map (\<lambda>t. idf 2 (dfs t)) V\<rparr>,
                   dot (l2_normalize (l2_normalize (map (w (analyze title)) V)))
                       (l2_normalize (l2_normalize (map (w (analyze abstract)) V)))))"
proof (cases "analyze title = [] \<and> analyze abstract = []")
  case True
  then show ?thesis
    by (simp add: row_similarity_def fit_transform_def)
next
  case False
  then have ne: "sort (remdups (analyze title @ analyze abstract)) \<noteq> []"
    using pair_vocabulary_empty [of analyze title abstract] by blast
  show ?thesis
    using False ne
    by (simp add: row_similarity_def fit_transform_def Let_def cosine_similarity_def index0_def
        map2_map_map comp_def numeral_2_eq_2)
qed

lemma row_similarity_state_free:
  "map_sum id snd (row_similarity analyze vectorizer title abstract)
     = pair_similarity analyze title abstract"
  by (simp add: pair_similarity_def row_similarity_eq Let_def)

lemma similarity_loop_map:
  "map_sum id snd (similarity_loop analyze vectorizer df similarities)
     = map_sum id ((@) similarities)
         (map_raising (\<lambda>r. pair_similarity analyze (Titulo r) (Resumen r)) df)"
proof (induction df arbitrary: vectorizer similarities)
  case Nil
  show ?case by simp
next
  case (Cons r df)
  show ?case
  proof (cases "row_similarity analyze vectorizer (Titulo r) (Resumen r)")
    case (Inl e)
    with row_similarity_state_free [of analyze vectorizer "Titulo r" "Resumen r"]
    have "pair_similarity analyze (Titulo r) (Resumen r) = Inl e" by simp
    with Inl show ?thesis by simp
  next
    case (Inr p)
    obtain vectorizer' similarity where p: "p = (vectorizer', similarity)"
      by (cases p)
    with Inr row_similarity_state_free [of analyze vectorizer "Titulo r" "Resumen r"]
    have ps: "pair_similarity analyze (Titulo r) (Resumen r) = Inr similarity" by simp
    show ?thesis
      using Inr p ps Cons.IH [of vectorizer' "similarities @ [similarity]"]
      by (cases "map_raising (\<lambda>r. pair_similarity analyze (Titulo r) (Resumen r)) df")
         simp_all
  qed
qed

lemma scorer_loop_is_map_aux:
  "map_sum id snd (similarity_loop analyze vectorizer df [])
     = map_raising (\<lambda>r. pair_similarity analyze (Titulo r) (Resumen r)) df"
proof -
  have "map_sum id ((@) []) = (\<lambda>x :: error + real list. x)"
    by (rule ext) (simp add: map_sum_def split: sum.splits)
  then show ?thesis
    using similarity_loop_map [of analyze vectorizer df "[]"] by simp
qed

lemma map_raising_Inr:
  "map_raising f xs = Inr ys \<Longrightarrow> ys = map (\<lambda>x. projr (f x)) xs"
  by (induction xs arbitrary: ys) (auto split: sum.splits)

lemma map_raising_Inr_iff:
  "(\<exists>ys. map_raising f xs = Inr ys) \<longleftrightarrow> (\<forall>x \<in> set xs. \<exists>y. f x = Inr y)"
  by (induction xs) (auto split: sum.splits)

lemma similarity_loop_Inr:
  "similarity_loop analyze vectorizer df [] = Inr (vectorizer', similarities) \<Longrightarrow>
     similarities = map (own_similarity analyze) df"
proof -
  assume "similarity_loop analyze vectorizer df [] = Inr (vectorizer', similarities)"
  with scorer_loop_is_map_aux [of analyze vectorizer df]
  have "map_raising (\<lambda>r. pair_similarity analyze (Titulo r) (Resumen r)) df = Inr similarities"
    by simp
  from map_raising_Inr [OF this] show ?thesis
    by (simp add: own_similarity_def)
qed

text \<open>
  C10. Whatever state the shared vectorizer starts in, the loop of the scorer computes
  what mapping the per-record function over the collection computes, the first exception
  ending both; when the loop returns, the similarity at each position is the one of that
  row's own title and abstract.
\<close>

theorem scorer_loop_is_map:
  "map_sum id snd (similarity_loop analyze vectorizer df [])
     = map_raising (\<lambda>r. pair_similarity analyze (Titulo r) (Resumen r)) df
   \<and> (\<forall>vectorizer' similarities.
         similarity_loop analyze vectorizer df [] = Inr (vectorizer', similarities)
         \<longrightarrow> similarities = map (own_similarity analyze) df)"
  using scorer_loop_is_map_aux similarity_loop_Inr by blast

lemma pair_similarity_cases:
  "pair_similarity analyze title abstract =
     (if analyze title = [] \<and> analyze abstract = [] then Inl ValueError
      else Inr (projr (pair_similarity analyze title abstract)))"
  by (simp add: pair_similarity_def row_similarity_eq Let_def)

lemma pair_similarity_Inl:
  "pair_similarity analyze title abstract = Inl e \<Longrightarrow>
     analyze title = [] \<and> analyze abstract = [] \<and> e = ValueError"
  by (simp add: pair_similarity_def row_similarity_eq Let_def split: if_splits)

lemma map_raising_Inl: "map_raising f xs = Inl e \<Longrightarrow> \<exists>x \<in> set xs. f x = Inl e"
  by (induction xs) (auto split: sum.splits)

lemma assign_similitud_own:
  "assign_similitud df (map (own_similarity analyze) df) = scored analyze df"
  by (induction df) (simp_all add: assign_similitud_def scored_def)

lemma check_similarity_eq:
  "check_similarity analyze df threshold =
     (if \<forall>r \<in> set df. analyze (Titulo r) \<noteq> [] \<or> analyze (Resumen r) \<noteq> []
      then Inr (filter (\<lambda>r. Similitud r < threshold) (scored analyze df),
                filter (\<lambda>r. threshold \<le> Similitud r) (scored analyze df))
      else Inl ValueError)"
proof (cases "similarity_loop analyze new_vectorizer df []")
  case (Inl e)
  with scorer_loop_is_map_aux [of analyze new_vectorizer df]
  have "map_raising (\<lambda>r. pair_similarity analyze (Titulo r) (Resumen r)) df = Inl e"
    by simp
  from map_raising_Inl [OF this] obtain r where r: "r \<in> set df"
    and pe: "pair_similarity analyze (Titulo r) (Resumen r) = Inl e"
    by blast
  from pair_similarity_Inl [OF pe]
  have "analyze (Titulo r) = [] \<and> analyze (Resumen r) = [] \<and> e = ValueError" .
  with r Inl show ?thesis
    by (auto simp: check_similarity_def)
next
  case (Inr p)
  obtain vectorizer' similarities where p: "p = (vectorizer', similarities)"
    by (cases p)
  from Inr p have s: "similarities = map (own_similarity analyze) df"
    using similarity_loop_Inr by blast
  from Inr p scorer_loop_is_map_aux [of analyze new_vectorizer df]
  have "map_raising (\<lambda>r. pair_similarity analyze (Titulo r) (Resumen r)) df = Inr similarities"
    by simp
  then have "\<forall>r \<in> set df. \<exists>y. pair_similarity analyze (Titulo r) (Resumen r) = Inr y"
    using map_raising_Inr_iff
      [of "\<lambda>r. pair_similarity analyze (Titulo r) (Resumen r)" df] by blast
  then have ne: "\<forall>r \<in> set df. analyze (Titulo r) \<noteq> [] \<or> analyze (Resumen r) \<noteq> []"
    using pair_similarity_cases [of analyze] by (metis Inl_Inr_False)
  show ?thesis
    using Inr p s ne
    by (simp add: check_similarity_def assign_similitud_own Let_def)
qed

text \<open>
  C8. Whenever the scorer returns, its two outputs split the scored input: their lengths
  add up to the length of the input, a scored row is in the incoherent output exactly when
  its similarity is below the threshold and in the coherent output exactly when it is not,
  so a similarity equal to the threshold is coherent.
\<close>

theorem scorer_partition:
  "check_similarity analyze df threshold = Inr (incoherent, coherent) \<Longrightarrow>
     length incoherent + length coherent = length df
     \<and> incoherent = filter (\<lambda>r. Similitud r < threshold) (scored analyze df)
     \<and> coherent = filter (\<lambda>r. threshold \<le> Similitud r) (scored analyze df)
     \<and> (\<forall>r \<in> set (scored analyze df).
           (r \<in> set incoherent \<longleftrightarrow> Similitud r < threshold)
           \<and> (r \<in> set coherent \<longleftrightarrow> \<not> Similitud r < threshold)
           \<and> (Similitud r = threshold \<longrightarrow> r \<in> set coherent))"
proof -
  assume h: "check_similarity analyze df threshold = Inr (incoherent, coherent)"
  then have i: "incoherent = filter (\<lambda>r. Similitud r < threshold) (scored analyze df)"
    and c: "coherent = filter (\<lambda>r. threshold \<le> Similitud r) (scored analyze df)"
    by (auto simp: check_similarity_eq split: if_splits)
  have c': "coherent = filter (\<lambda>r. \<not> Similitud r < threshold) (scored analyze df)"
    unfolding c by (simp add: not_less)
  have "length incoherent + length coherent = length (scored analyze df)"
    unfolding i c' by (rule sum_length_filter_compl)
  then have l: "length incoherent + length coherent = length df"
    by (simp add: scored_def)
  have m: "\<forall>r \<in> set (scored analyze df).
           (r \<in> set incoherent \<longleftrightarrow> Similitud r < threshold)
           \<and> (r \<in> set coherent \<longleftrightarrow> \<not> Similitud r < threshold)
           \<and> (Similitud r = threshold \<longrightarrow> r \<in> set coherent)"
    unfolding i c' by auto
  from l i c m show ?thesis by blast
qed

lemma pair_similarity_disjoint:
  "shared_terms analyze title abstract = {} \<Longrightarrow>
     pair_similarity analyze title abstract =
       (if analyze title = [] \<and> analyze abstract = [] then Inl ValueError else Inr 0)"
proof -
  assume d: "shared_terms analyze title abstract = {}"
  have cl: "\<And>t. count_list (analyze title) t = 0 \<or> count_list (analyze abstract) t = 0"
    using d by (auto simp: shared_terms_def count_list_0_iff)
  have z: "dot (l2_normalize (l2_normalize
                 (map (\<lambda>t. real (count_list (analyze title) t) * i t) V)))
               (l2_normalize (l2_normalize
                 (map (\<lambda>t. real (count_list (analyze abstract) t) * i t) V))) = 0" for i V
  proof (rule dot_normalized_disjoint)
    fix t
    from cl [of t]
    show "real (count_list (analyze title) t) * i t = 0
        \<or> real (count_list (analyze abstract) t) * i t = 0"
      by auto
  qed
  show ?thesis
    by (simp add: pair_similarity_def row_similarity_eq Let_def z)
qed

text \<open>
  C4, as the code has it. For a row whose title and abstract share no term: when one of
  them has a term, the similarity is exactly 0, and whenever the scorer returns for a
  positive threshold the row is in the incoherent output and not in the coherent one;
  when neither has a term, the vectorizer raises \<open>ValueError\<close> for the empty vocabulary.
\<close>

theorem disjoint_terms_similarity:
  "shared_terms analyze (Titulo r) (Resumen r) = {} \<Longrightarrow>
     pair_similarity analyze (Titulo r) (Resumen r) =
       (if analyze (Titulo r) = [] \<and> analyze (Resumen r) = [] then Inl ValueError else Inr 0)
     \<and> (\<forall>df threshold incoherent coherent.
           r \<in> set df \<longrightarrow> 0 < threshold
           \<longrightarrow> check_similarity analyze df threshold = Inr (incoherent, coherent)
           \<longrightarrow> \<lparr>Titulo = Titulo r, Resumen = Resumen r, Fecha = Fecha r, Similitud = 0\<rparr>
                 \<in> set incoherent
               \<and> \<lparr>Titulo = Titulo r, Resumen = Resumen r, Fecha = Fecha r, Similitud = 0\<rparr>
                 \<notin> set coherent)"
proof -
  assume d: "shared_terms analyze (Titulo r) (Resumen r) = {}"
  let ?s = "\<lparr>Titulo = Titulo r, Resumen = Resumen r, Fecha = Fecha r, Similitud = 0\<rparr>"
  note ps = pair_similarity_disjoint [OF d]
  have "?s \<in> set incoherent \<and> ?s \<notin> set coherent"
    if m: "r \<in> set df" and t: "0 < threshold"
      and c: "check_similarity analyze df threshold = Inr (incoherent, coherent)"
    for df threshold incoherent coherent
  proof -
    from c have ne: "\<forall>r \<in> set df. analyze (Titulo r) \<noteq> [] \<or> analyze (Resumen r) \<noteq> []"
      and i: "incoherent = filter (\<lambda>r. Similitud r < threshold) (scored analyze df)"
      and co: "coherent = filter (\<lambda>r. threshold \<le> Similitud r) (scored analyze df)"
      by (auto simp: check_similarity_eq split: if_splits)
    from ne m ps have "own_similarity analyze r = 0"
      by (auto simp: own_similarity_def)
    with m have "?s \<in> set (scored analyze df)"
      by (force simp: scored_def)
    with t show ?thesis
      unfolding i co by simp
  qed
  with ps show ?thesis by blast
qed

lemmas sample_analyze_eval = sample_analyze_def ascii_lower_def is_word_char_def

lemma sample_terms:
  "sample_analyze ''Unrelated Topic'' = [''unrelated'', ''topic'']"
  "sample_analyze ''Completely different subject matter with no overlap.''
     = [''completely'', ''different'', ''subject'', ''matter'', ''overlap'']"
  "sample_analyze ''Who are we?'' = []"
  "sample_analyze ''N/A'' = []"
  "sample_analyze ''Portfolio'' = [''portfolio'']"
  "sample_analyze ''portfolio.'' = [''portfolio'']"
  by (simp_all add: sample_analyze_eval)

lemma sample_same_similarity: "pair_similarity sample_analyze ''Portfolio'' ''portfolio.'' = Inr 1"
  by (simp add: pair_similarity_def row_similarity_eq Let_def sample_terms idf_def l2_norm_def
      l2_normalize_def dot_def)

lemma sample_c_disjoint: "shared_terms sample_analyze (Titulo row_c) (Resumen row_c) = {}"
  by (simp add: shared_terms_def row_c_def sample_terms)

lemma sample_c_similarity:
  "pair_similarity sample_analyze (Titulo row_c) (Resumen row_c) = Inr 0"
  using pair_similarity_disjoint [OF sample_c_disjoint]
  by (simp add: row_c_def sample_terms)

lemma sample_check:
  "check_similarity sample_analyze [row_c, row_same] (2 / 10) =
     Inr ([\<lparr>Titulo = Titulo row_c, Resumen = Resumen row_c, Fecha = Fecha row_c, Similitud = 0\<rparr>],
          [\<lparr>Titulo = Titulo row_same, Resumen = Resumen row_same, Fecha = Fecha row_same,
            Similitud = 1\<rparr>])"
proof -
  have c: "own_similarity sample_analyze row_c = 0"
    by (simp add: own_similarity_def sample_c_similarity)
  have s: "own_similarity sample_analyze row_same = 1"
    by (simp add: own_similarity_def row_same_def sample_same_similarity)
  have n: "sample_analyze (Titulo row_c) \<noteq> []" "sample_analyze (Titulo row_same) \<noteq> []"
    by (simp_all add: row_c_def row_same_def sample_terms)
  show ?thesis
    by (simp add: check_similarity_eq scored_def c s n)
qed

theorem disjoint_terms_similarity_witness:
  "shared_terms sample_analyze (Titulo row_c) (Resumen row_c) = {}
   \<and> pair_similarity sample_analyze (Titulo row_c) (Resumen row_c) = Inr 0
   \<and> \<lparr>Titulo = Titulo row_c, Resumen = Resumen row_c, Fecha = Fecha row_c, Similitud = 0\<rparr>
       \<in> set (fst (projr (check_similarity sample_analyze [row_c, row_same] (2 / 10))))"
proof -
  have n: "sample_analyze (Titulo row_c) \<noteq> []"
    by (simp add: row_c_def sample_terms)
  from disjoint_terms_similarity [OF sample_c_disjoint] n
  have "pair_similarity sample_analyze (Titulo row_c) (Resumen row_c) = Inr 0"
    by simp
  with sample_c_disjoint sample_check show ?thesis
    by simp
qed

text \<open>
  C4 as stated fails: the title \<open>Who are we?\<close> and the abstract \<open>N/A\<close> have no term
  at all, so they share none, and the scorer raises instead of assigning 0.
\<close>

theorem empty_vocabulary_counterexample:
  "shared_terms sample_analyze (Titulo row_stop) (Resumen row_stop) = {}
   \<and> pair_similarity sample_analyze (Titulo row_stop) (Resumen row_stop) = Inl ValueError
   \<and> check_similarity sample_analyze [row_stop] (2 / 10) = Inl ValueError"
  by (simp add: shared_terms_def row_stop_def sample_terms check_similarity_def
      row_similarity_def fit_transform_def pair_similarity_def)

theorem scorer_partition_witness:
  "check_similarity sample_analyze [row_c, row_same] (2 / 10) =
     Inr ([\<lparr>Titulo = Titulo row_c, Resumen = Resumen row_c, Fecha = Fecha row_c, Similitud = 0\<rparr>],
          [\<lparr>Titulo = Titulo row_same, Resumen = Resumen row_same, Fecha = Fecha row_same,
            Similitud = 1\<rparr>])
   \<and> length [\<lparr>Titulo = Titulo row_c, Resumen = Resumen row_c, Fecha = Fecha row_c,
               Similitud = 0\<rparr>]
     + length [\<lparr>Titulo = Titulo row_same, Resumen = Resumen row_same, Fecha = Fecha row_same,
               Similitud = 1\<rparr>]
     = length [row_c, row_same]"
proof -
  from scorer_partition [OF sample_check]
  have "length [\<lparr>Titulo = Titulo row_c, Resumen = Resumen row_c, Fecha = Fecha row_c,
               Similitud = 0\<rparr>]
     + length [\<lparr>Titulo = Titulo row_same, Resumen = Resumen row_same, Fecha = Fecha row_same,
               Similitud = 1\<rparr>]
     = length [row_c, row_same]"
    by blast
  with sample_check show ?thesis by blast
qed

theorem scorer_loop_is_map_witness:
  "map_sum id snd (similarity_loop sample_analyze new_vectorizer [row_c, row_same] [])
     = Inr [0, 1]
   \<and> map_sum id snd (similarity_loop sample_analyze new_vectorizer [row_same, row_c] [])
     = Inr [1, 0]"
proof -
  have s: "pair_similarity sample_analyze (Titulo row_same) (Resumen row_same) = Inr 1"
    by (simp add: row_same_def sample_same_similarity)
  from scorer_loop_is_map [of sample_analyze new_vectorizer "[row_c, row_same]"]
    scorer_loop_is_map [of sample_analyze new_vectorizer "[row_same, row_c]"]
  show ?thesis
    by (simp add: s sample_c_similarity)
qed

end
